theory Spec2Isabelle
  imports Main
begin

section \<open>Strings\<close>

text \<open>
  A Python \<open>str\<close> is modelled as a \<open>string\<close>, each \<open>char\<close> standing for the code
  point of the same number (0 to 255, the Latin-1 range). \<open>isspace\<close> and
  \<open>lower_char\<close> are Python's \<open>str.isspace\<close> and \<open>str.lower\<close> on that range.
\<close>

definition isspace :: "char \<Rightarrow> bool" where
  "isspace c = (let n = (of_char c :: nat) in
     (9 \<le> n \<and> n \<le> 13) \<or> (28 \<le> n \<and> n \<le> 32) \<or> n = 133 \<or> n = 160)"

definition lower_char :: "char \<Rightarrow> char" where
  "lower_char c = (let n = (of_char c :: nat) in
     if (65 \<le> n \<and> n \<le> 90) \<or> (192 \<le> n \<and> n \<le> 222 \<and> n \<noteq> 215)
     then char_of (n + 32) else c)"

definition lower :: "string \<Rightarrow> string" where
  "lower s = map lower_char s"

definition endswith :: "string \<Rightarrow> string \<Rightarrow> bool" where
  "endswith s suf = (length suf \<le> length s \<and> drop (length s - length suf) s = suf)"

definition lstrip :: "string \<Rightarrow> string" where
  "lstrip s = dropWhile isspace s"

definition rstrip :: "string \<Rightarrow> string" where
  "rstrip s = rev (dropWhile isspace (rev s))"

definition strip :: "string \<Rightarrow> string" where
  "strip s = rstrip (lstrip s)"

section \<open>Scalars and their string form\<close>

text \<open>
  The values of cells and of raw column labels: integers, strings, booleans and the
  missing value. Floating-point cells, and the numeric dtype unification that pandas
  applies to a column, are outside the model.
\<close>

datatype scalar = SInt int | SStr string | SBool bool | NaN

fun str_nat :: "nat \<Rightarrow> string" where
  "str_nat n = (if n < 10 then [char_of (48 + n)]
                else str_nat (n div 10) @ [char_of (48 + n mod 10)])"

declare str_nat.simps [simp del]

definition str_int :: "int \<Rightarrow> string" where
  "str_int i = (if i < 0 then CHR ''-'' # str_nat (nat (- i)) else str_nat (nat i))"

fun str :: "scalar \<Rightarrow> string" where
  "str (SInt i) = str_int i"
| "str (SStr s) = s"
| "str (SBool b) = (if b then ''True'' else ''False'')"
| "str NaN = ''nan''"

section \<open>Data frames\<close>

text \<open>
  A \<open>pandas.DataFrame\<close> with its labels in column order and its rows in row order,
  each row holding one cell per column, by position (labels may repeat).
\<close>

record 'l dataframe =
  columns :: "'l list"
  rows :: "scalar list list"

definition wf_df :: "'l dataframe \<Rightarrow> bool" where
  "wf_df df = list_all (\<lambda>r. length r = length (columns df)) (rows df)"

text \<open>
  \<open>df[key] = value\<close> with a scalar value: every column labelled \<open>key\<close> is overwritten;
  when there is none, a new last column is inserted.
\<close>

definition setitem :: "string dataframe \<Rightarrow> string \<Rightarrow> scalar \<Rightarrow> string dataframe" where
  "setitem df key v =
     (if key \<in> set (columns df)
      then df\<lparr>rows := map (\<lambda>r. map (\<lambda>(c, x). if c = key then v else x) (zip (columns df) r))
                          (rows df)\<rparr>
      else df\<lparr>columns := columns df @ [key], rows := map (\<lambda>r. r @ [v]) (rows df)\<rparr>)"

datatype error =
    UnsupportedFormat
  | ReadError string
  | InvalidIndexError
  | SheetTooLarge
  | IllegalCharacterError

text \<open>
  \<open>pd.concat([df1, df2], ignore_index=True)\<close>, as pandas computes it. The labels of
  the result are those of the frames when both carry the same labels, and otherwise the
  distinct labels of \<open>df1\<close> followed by the new distinct labels of \<open>df2\<close>. A frame
  whose labels are those of the result is taken as it is; any other frame is reindexed
  to them (a cell of an absent column is \<open>NaN\<close>), and reindexing a frame whose labels
  repeat raises \<open>InvalidIndexError\<close>. The rows of \<open>df1\<close> come first.

  pandas brings the two pieces of every column to their common dtype, which can change
  how a cell is represented (an integer next to a missing value becomes a float). That
  conversion is a parameter: \<open>cast c\<close> is what is applied to each cell of column
  \<open>c\<close>.
\<close>

definition unique :: "string list \<Rightarrow> string list" where
  "unique cols = rev (remdups (rev cols))"

definition union_indexes :: "string list \<Rightarrow> string list \<Rightarrow> string list" where
  "union_indexes cols1 cols2 =
     (if cols1 = cols2 then cols1
      else unique cols1 @ filter (\<lambda>c. c \<notin> set cols1) (unique cols2))"

definition cast_row :: "(string \<Rightarrow> scalar \<Rightarrow> scalar) \<Rightarrow> string list \<Rightarrow> scalar list \<Rightarrow> scalar list" where
  "cast_row cast cols r = map (\<lambda>(c, x). cast c x) (zip cols r)"

definition reindex ::
  "(string \<Rightarrow> scalar \<Rightarrow> scalar) \<Rightarrow> string list \<Rightarrow> string list \<Rightarrow> scalar list \<Rightarrow> scalar list" where
  "reindex cast cols new_cols r =
     map (\<lambda>c. case map_of (zip cols r) c of Some x \<Rightarrow> cast c x | None \<Rightarrow> NaN) new_cols"

definition conform ::
  "(string \<Rightarrow> scalar \<Rightarrow> scalar) \<Rightarrow> string list \<Rightarrow> string dataframe \<Rightarrow> error + scalar list list" where
  "conform cast new_cols df =
     (if columns df = new_cols then Inr (map (cast_row cast (columns df)) (rows df))
      else if distinct (columns df)
      then Inr (map (reindex cast (columns df) new_cols) (rows df))
      else Inl InvalidIndexError)"

definition concat_frames ::
  "(string \<Rightarrow> scalar \<Rightarrow> scalar) \<Rightarrow> string dataframe \<Rightarrow> string dataframe \<Rightarrow>
     error + string dataframe" where
  "concat_frames cast df1 df2 =
     (let new_cols = union_indexes (columns df1) (columns df2) in
      case conform cast new_cols df1 of
        Inl e \<Rightarrow> Inl e
      | Inr rows1 \<Rightarrow>
          (case conform cast new_cols df2 of
             Inl e \<Rightarrow> Inl e
           | Inr rows2 \<Rightarrow> Inr \<lparr>columns = new_cols, rows = rows1 @ rows2\<rparr>))"

section \<open>The functions of \<open>app.py\<close>\<close>

record uploaded_file =
  name :: string
  content :: string

text \<open>
  What pandas makes of the contents of a file and of the dtypes of columns is taken as a
  parameter. The decoders \<open>pd.read_csv\<close> and \<open>pd.read_excel\<close> each return the
  decoded frame, or the message of the exception they raised. \<open>concat_cast df1 df2 c\<close>
  is the conversion that \<open>pd.concat([df1, df2])\<close> applies to the cells of column
  \<open>c\<close> when it brings the column to its common dtype.
\<close>

record pandas =
  read_csv :: "uploaded_file \<Rightarrow> string + scalar dataframe"
  read_excel :: "uploaded_file \<Rightarrow> string + scalar dataframe"
  concat_cast :: "string dataframe \<Rightarrow> string dataframe \<Rightarrow> string \<Rightarrow> scalar \<Rightarrow> scalar"

text \<open>\<open>pd.concat\<close> drops a \<open>None\<close> among its arguments.\<close>

definition pd_concat ::
  "pandas \<Rightarrow> string dataframe option \<Rightarrow> string dataframe \<Rightarrow> error + string dataframe" where
  "pd_concat pd compiled df_new =
     (case compiled of
        None \<Rightarrow> Inr df_new
      | Some df \<Rightarrow> concat_frames (concat_cast pd df df_new) df df_new)"

definition decode :: "string + scalar dataframe \<Rightarrow> error + scalar dataframe" where
  "decode r = (case r of Inl msg \<Rightarrow> Inl (ReadError msg) | Inr df \<Rightarrow> Inr df)"

definition read_any_table :: "pandas \<Rightarrow> uploaded_file \<Rightarrow> error + scalar dataframe" where
  "read_any_table pd uploaded =
     (let nm = lower (name uploaded) in
      if endswith nm ''.csv'' then decode (read_csv pd uploaded)
      else if endswith nm ''.xlsx'' \<or> endswith nm ''.xls'' then decode (read_excel pd uploaded)
      else Inl UnsupportedFormat)"

definition normalize_columns :: "scalar list \<Rightarrow> string list" where
  "normalize_columns cols = map (\<lambda>c. strip (str c)) cols"

definition cols_match :: "string list \<Rightarrow> string list \<Rightarrow> bool" where
  "cols_match expected incoming = (expected = incoming)"

definition diff_cols :: "string list \<Rightarrow> string list \<Rightarrow> string list \<times> string list \<times> bool" where
  "diff_cols expected incoming =
     (let exp_set = set expected;
          inc_set = set incoming;
          missing = filter (\<lambda>c. c \<notin> inc_set) expected;
          extra = filter (\<lambda>c. c \<notin> exp_set) incoming;
          order_issue = (exp_set = inc_set \<and> expected \<noteq> incoming)
      in (missing, extra, order_issue))"

text \<open>
  \<open>df.to_excel(writer, index=..., sheet_name=...)\<close> through the openpyxl writer. pandas
  first refuses a frame that does not fit a sheet. It then generates one cell per
  position, rows and columns counted from 0: the header cells in row 0, with
  \<open>index\<close> on the row numbers in column 0 (which shifts the other columns by one),
  and the body column by column; a missing value is replaced by the empty string. The
  writer binds each cell to the worksheet in that order and stops at the first cell that
  openpyxl refuses. What openpyxl stores for a value (a number as a double, a string cut
  and checked, a formula) is a parameter, \<open>bind\<close>; so is the serialisation of the
  workbook to bytes, \<open>save\<close>.
\<close>

record 'c sheet =
  sheet_name :: string
  cells :: "((nat \<times> nat) \<times> 'c) list"

definition format_value :: "scalar \<Rightarrow> scalar" where
  "format_value v = (case v of NaN \<Rightarrow> SStr [] | _ \<Rightarrow> v)"

definition format_header :: "string dataframe \<Rightarrow> bool \<Rightarrow> ((nat \<times> nat) \<times> scalar) list" where
  "format_header df index =
     (let coloffset = (if index then 1 else 0)
      in map (\<lambda>j. ((0, j + coloffset), SStr (columns df ! j))) [0..<length (columns df)])"

definition format_body :: "string dataframe \<Rightarrow> bool \<Rightarrow> ((nat \<times> nat) \<times> scalar) list" where
  "format_body df index =
     (let coloffset = (if index then 1 else 0)
      in (if index then map (\<lambda>i. ((Suc i, 0), SInt (int i))) [0..<length (rows df)] else []) @
         concat (map (\<lambda>j. map (\<lambda>i. ((Suc i, j + coloffset), rows df ! i ! j))
                              [0..<length (rows df)])
                     [0..<length (columns df)]))"

definition get_formatted_cells :: "string dataframe \<Rightarrow> bool \<Rightarrow> ((nat \<times> nat) \<times> scalar) list" where
  "get_formatted_cells df index =
     map (\<lambda>(pos, v). (pos, format_value v)) (format_header df index @ format_body df index)"

fun write_cells ::
  "(scalar \<Rightarrow> error + 'c) \<Rightarrow> ((nat \<times> nat) \<times> scalar) list \<Rightarrow> error + ((nat \<times> nat) \<times> 'c) list" where
  "write_cells bind [] = Inr []"
| "write_cells bind ((pos, v) # cs) =
     (case bind v of
        Inl e \<Rightarrow> Inl e
      | Inr c \<Rightarrow>
          (case write_cells bind cs of
             Inl e \<Rightarrow> Inl e
           | Inr stored \<Rightarrow> Inr ((pos, c) # stored)))"

definition to_excel ::
  "(scalar \<Rightarrow> error + 'c) \<Rightarrow> string dataframe \<Rightarrow> 'c sheet list \<Rightarrow> bool \<Rightarrow> string \<Rightarrow>
     error + 'c sheet list" where
  "to_excel bind df writer index nm =
     (if length (rows df) > 1048576 \<or> length (columns df) > 16384 then Inl SheetTooLarge
      else case write_cells bind (get_formatted_cells df index) of
             Inl e \<Rightarrow> Inl e
           | Inr stored \<Rightarrow> Inr (writer @ [\<lparr>sheet_name = nm, cells = stored\<rparr>]))"

text \<open>
  \<open>to_excel_bytes\<close> opens a writer on an empty workbook, writes the frame with
  \<open>index=False\<close> to the sheet \<open>compiled\<close> and returns the bytes the writer saved.
  An exception of \<open>to_excel\<close> leaves the function; the caller (line 156) is outside
  the \<open>try\<close> of the upload handler.
\<close>

definition to_excel_bytes ::
  "(scalar \<Rightarrow> error + 'c) \<Rightarrow> ('c sheet list \<Rightarrow> string) \<Rightarrow> string dataframe \<Rightarrow> error + string" where
  "to_excel_bytes bind save df =
     (case to_excel bind df [] False ''compiled'' of
        Inl e \<Rightarrow> Inl e
      | Inr book \<Rightarrow> Inr (save book))"

definition download_file_name :: "string \<Rightarrow> string" where
  "download_file_name filename =
     (if endswith (lower filename) ''.xlsx'' then filename else filename @ ''.xlsx'')"

section \<open>Session state and the upload handler\<close>

record session_state =
  expected_cols :: "string list option"
  compiled_df :: "string dataframe option"
  uploaded_files :: "string list"

definition init_state :: session_state where
  "init_state = \<lparr>expected_cols = None, compiled_df = None, uploaded_files = []\<rparr>"

definition reset :: "session_state \<Rightarrow> session_state" where
  "reset s = s\<lparr>expected_cols := None, compiled_df := None, uploaded_files := []\<rparr>"

text \<open>What the handler shows: one of the two success messages, the mismatch report, or
  the message of the exception caught by \<open>except Exception\<close>.\<close>

datatype outcome =
    FirstLoaded nat nat
  | Appended nat string
  | ColumnMismatch "string list" "string list" bool "string list" "string list"
  | Failed error

definition add_source :: "bool \<Rightarrow> string \<Rightarrow> string \<Rightarrow> string dataframe \<Rightarrow> string dataframe" where
  "add_source add_source_col source_col_name filename df_new =
     (if add_source_col then setitem df_new source_col_name (SStr filename) else df_new)"

definition upload ::
  "pandas \<Rightarrow> bool \<Rightarrow> string \<Rightarrow> uploaded_file \<Rightarrow> session_state \<Rightarrow> session_state \<times> outcome" where
  "upload pd add_source_col source_col_name uploaded s =
     (case read_any_table pd uploaded of
        Inl e \<Rightarrow> (s, Failed e)
      | Inr raw \<Rightarrow>
          (let df_new = \<lparr>columns = normalize_columns (columns raw), rows = rows raw\<rparr> in
           case expected_cols s of
             None \<Rightarrow>
               (let df_tagged = add_source add_source_col source_col_name (name uploaded) df_new
                in (s\<lparr>expected_cols := Some (columns df_new),
                      compiled_df := Some df_tagged,
                      uploaded_files := uploaded_files s @ [name uploaded]\<rparr>,
                    FirstLoaded (length (columns df_new)) (length (rows df_tagged))))
           | Some expected \<Rightarrow>
               (let incoming_cols = columns df_new in
                if cols_match expected incoming_cols
                then (let df_tagged = add_source add_source_col source_col_name (name uploaded) df_new
                      in case pd_concat pd (compiled_df s) df_tagged of
                           Inl e \<Rightarrow> (s, Failed e)
                         | Inr df_all \<Rightarrow>
                             (s\<lparr>compiled_df := Some df_all,
                                uploaded_files := uploaded_files s @ [name uploaded]\<rparr>,
                              Appended (length (rows df_tagged)) (name uploaded)))
                else (case diff_cols expected incoming_cols of
                        (missing, extra, order_issue) \<Rightarrow>
                          (s, ColumnMismatch missing extra order_issue expected incoming_cols)))))"

section \<open>Suffixes up to letter case\<close>

text \<open>
  What "ends, case-insensitively, in \<open>suf\<close>" says for a suffix written in lower case:
  the last characters of the name are those of \<open>suf\<close>, each one either as written or
  as the upper-case form of an ASCII letter.
\<close>

definition same_letter :: "char \<Rightarrow> char \<Rightarrow> bool" where
  "same_letter c d =
     (c = d \<or> (97 \<le> (of_char d :: nat) \<and> (of_char d :: nat) \<le> 122 \<and>
               (of_char c :: nat) + 32 = of_char d))"

definition ends_nocase :: "string \<Rightarrow> string \<Rightarrow> bool" where
  "ends_nocase s suf =
     (length suf \<le> length s \<and> list_all2 same_letter (drop (length s - length suf) s) suf)"

text \<open>The characters a lower-case suffix such as \<open>.xlsx\<close> is written with.\<close>

definition plain :: "char \<Rightarrow> bool" where
  "plain d = ((of_char d :: nat) = 46 \<or> (97 \<le> (of_char d :: nat) \<and> (of_char d :: nat) \<le> 122))"

definition supported :: "string \<Rightarrow> bool" where
  "supported nm = (ends_nocase nm ''.csv'' \<or> ends_nocase nm ''.xlsx'' \<or> ends_nocase nm ''.xls'')"

section \<open>Example uploads\<close>

text \<open>
  A decoder for a handful of example files, told apart by their names; every column of
  these files has one dtype, so the conversion of \<open>pd.concat\<close> is the identity on
  them. Three states are reached from the initial state: \<open>seeded1\<close> by uploading
  \<open>f1.csv\<close> with the source column on, \<open>seeded5\<close> by uploading \<open>f5.csv\<close>, which has
  a column \<open>source_file\<close> of its own, with the source column on, and \<open>seeded6\<close> by
  uploading \<open>f6.csv\<close>, whose two headers \<open>a\<close> and \<open> a\<close> normalise to the same
  label, with the source column off.
\<close>

definition named :: "string \<Rightarrow> uploaded_file" where
  "named nm = \<lparr>name = nm, content = []\<rparr>"

definition ex_decode :: "uploaded_file \<Rightarrow> string + scalar dataframe" where
  "ex_decode f =
     (if name f = ''f1.csv''
      then Inr \<lparr>columns = [SStr ''id'', SStr '' name ''],
                rows = [[SInt 1, SStr ''a''], [SInt 2, SStr ''b'']]\<rparr>
      else if name f = ''f2.CSV''
      then Inr \<lparr>columns = [SStr ''id'', SStr ''name''], rows = [[SInt 3, SStr ''c'']]\<rparr>
      else if name f = ''f3.xlsx''
      then Inr \<lparr>columns = [SStr ''name'', SStr ''id''], rows = [[SStr ''d'', SInt 4]]\<rparr>
      else if name f = ''f4.xls''
      then Inr \<lparr>columns = [SStr ''id'', SStr ''name'', SStr ''extra''],
                rows = [[SInt 5, SStr ''e'', SBool True]]\<rparr>
      else if name f = ''f5.csv''
      then Inr \<lparr>columns = [SStr ''id'', SStr ''source_file''],
                rows = [[SInt 1, SStr ''orig'']]\<rparr>
      else if name f = ''f6.csv''
      then Inr \<lparr>columns = [SStr ''a'', SStr '' a''], rows = [[SInt 1, SInt 2]]\<rparr>
      else if name f = ''f7.csv''
      then Inr \<lparr>columns = [SStr ''id'', SStr ''source_file''],
                rows = [[SInt 2, SStr ''own'']]\<rparr>
      else Inl ''cannot parse'')"

definition ex_pd :: pandas where
  "ex_pd = \<lparr>read_csv = ex_decode, read_excel = ex_decode,
            concat_cast = (\<lambda>df1 df2 c x. x)\<rparr>"

definition seeded1 :: session_state where
  "seeded1 = fst (upload ex_pd True ''source_file'' (named ''f1.csv'') init_state)"


definition seeded6 :: session_state where
  "seeded6 = fst (upload ex_pd False ''source_file'' (named ''f6.csv'') init_state)"

text \<open>
  openpyxl's check of a string cell: the string is cut to 32767 characters, and a
  control character other than tab, line feed and carriage return raises
  \<open>IllegalCharacterError\<close>. \<open>bind_checked\<close> binds a string through that check and
  stores every other value as it is; \<open>ex_save\<close> stands for the serialisation.
\<close>

definition illegal_char :: "char \<Rightarrow> bool" where
  "illegal_char c = (let n = (of_char c :: nat) in
     n \<le> 8 \<or> n = 11 \<or> n = 12 \<or> (14 \<le> n \<and> n \<le> 31))"

definition check_string :: "string \<Rightarrow> error + string" where
  "check_string s =
     (let v = take 32767 s
      in if list_ex illegal_char v then Inl IllegalCharacterError else Inr v)"

definition bind_checked :: "scalar \<Rightarrow> error + scalar" where
  "bind_checked v =
     (case v of
        SStr s \<Rightarrow> (case check_string s of Inl e \<Rightarrow> Inl e | Inr t \<Rightarrow> Inr (SStr t))
      | _ \<Rightarrow> Inr v)"

definition ex_save :: "scalar sheet list \<Rightarrow> string" where
  "ex_save book = concat (map sheet_name book)"

section \<open>Verified properties\<close>

subsection \<open>Letter case\<close>

lemma of_char_lower_char:
  "(of_char (lower_char c) :: nat) =
     (if (65 \<le> (of_char c :: nat) \<and> (of_char c :: nat) \<le> 90) \<or>
         (192 \<le> (of_char c :: nat) \<and> (of_char c :: nat) \<le> 222 \<and> (of_char c :: nat) \<noteq> 215)
      then of_char c + 32 else of_char c)"
  by (simp add: lower_char_def Let_def)

lemma char_eq_by_code: "c = d \<longleftrightarrow> (of_char c :: nat) = of_char d"
  by simp

lemma plain_bound: "(of_char d :: nat) < 256"
  by simp

lemma lower_char_same_letter:
  assumes "(of_char d :: nat) = 46 \<or> (97 \<le> (of_char d :: nat) \<and> (of_char d :: nat) \<le> 122)"
  shows "lower_char c = d \<longleftrightarrow> same_letter c d"
proof -
  have "lower_char c = d \<longleftrightarrow> (of_char (lower_char c) :: nat) = of_char d"
    by (rule char_eq_by_code)
  also have "\<dots> \<longleftrightarrow> (of_char c :: nat) = of_char d \<or>
      (97 \<le> (of_char d :: nat) \<and> (of_char d :: nat) \<le> 122 \<and> (of_char c :: nat) + 32 = of_char d)"
    using assms unfolding of_char_lower_char by presburger
  also have "\<dots> \<longleftrightarrow> same_letter c d"
    unfolding same_letter_def char_eq_by_code [of c d] ..
  finally show ?thesis .
qed

lemma map_lower_eq_iff:
  "list_all plain suf \<Longrightarrow> map lower_char xs = suf \<longleftrightarrow> list_all2 same_letter xs suf"
proof (induction xs arbitrary: suf)
  case Nil
  then show ?case by auto
next
  case (Cons x xs)
  show ?case
  proof (cases suf)
    case Nil
    then show ?thesis by simp
  next
    case (Cons d ds)
    with Cons.prems have d: "plain d" and ds: "list_all plain ds" by simp_all
    from d have "lower_char x = d \<longleftrightarrow> same_letter x d"
      unfolding plain_def by (rule lower_char_same_letter)
    with Cons.IH [OF ds] Cons show ?thesis by simp
  qed
qed

lemma endswith_lower_iff:
  assumes "list_all plain suf"
  shows "endswith (lower s) suf \<longleftrightarrow> ends_nocase s suf"
  unfolding endswith_def ends_nocase_def lower_def
  by (simp add: drop_map map_lower_eq_iff [OF assms])

lemma plain_csv: "list_all plain ''.csv''" by (simp add: plain_def)
lemma plain_xlsx: "list_all plain ''.xlsx''" by (simp add: plain_def)
lemma plain_xls: "list_all plain ''.xls''" by (simp add: plain_def)

lemma endswith_last: "endswith s suf \<Longrightarrow> suf \<noteq> [] \<Longrightarrow> last s = last suf"
  unfolding endswith_def
  by (metis append_take_drop_id last_appendR)

lemma csv_not_excel:
  "endswith nm ''.csv'' \<Longrightarrow> \<not> (endswith nm ''.xlsx'' \<or> endswith nm ''.xls'')"
  by (auto dest!: endswith_last)

subsection \<open>Stripping\<close>

lemma lstrip_split:
  "\<exists>pre. pre @ lstrip s = s \<and> list_all isspace pre"
proof -
  have "takeWhile isspace s @ lstrip s = s"
    unfolding lstrip_def by (rule takeWhile_dropWhile_id)
  moreover have "list_all isspace (takeWhile isspace s)"
    unfolding list_all_iff by (blast dest: set_takeWhileD)
  ultimately show ?thesis by blast
qed

lemma rstrip_split:
  "\<exists>post. rstrip s @ post = s \<and> list_all isspace post"
proof -
  let ?post = "rev (takeWhile isspace (rev s))"
  have "rstrip s @ ?post = rev (takeWhile isspace (rev s) @ dropWhile isspace (rev s))"
    unfolding rstrip_def rev_append ..
  also have "\<dots> = rev (rev s)"
    by (simp only: takeWhile_dropWhile_id)
  also have "\<dots> = s" by (rule rev_rev_ident)
  finally have "rstrip s @ ?post = s" .
  moreover have "list_all isspace ?post"
    unfolding list_all_iff set_rev by (blast dest: set_takeWhileD)
  ultimately show ?thesis by blast
qed

lemma lstrip_hd: "lstrip s \<noteq> [] \<Longrightarrow> \<not> isspace (hd (lstrip s))"
  unfolding lstrip_def by (rule hd_dropWhile)

lemma rstrip_last:
  assumes "rstrip s \<noteq> []"
  shows "\<not> isspace (last (rstrip s))"
proof -
  from assms have ne: "dropWhile isspace (rev s) \<noteq> []"
    unfolding rstrip_def by simp
  then have "\<not> isspace (hd (dropWhile isspace (rev s)))" by (rule hd_dropWhile)
  moreover have "last (rstrip s) = hd (dropWhile isspace (rev s))"
    unfolding rstrip_def by (rule last_rev)
  ultimately show ?thesis by simp
qed

lemma rstrip_hd:
  assumes "rstrip s \<noteq> []"
  shows "hd (rstrip s) = hd s"
proof -
  obtain post where p: "rstrip s @ post = s"
    using rstrip_split by blast
  from assms have "hd (rstrip s @ post) = hd (rstrip s)" by (rule hd_append2)
  then show ?thesis by (simp only: p)
qed

lemma strip_spec:
  "\<exists>pre post. s = pre @ strip s @ post \<and> list_all isspace pre \<and> list_all isspace post \<and>
     (strip s \<noteq> [] \<longrightarrow> \<not> isspace (hd (strip s)) \<and> \<not> isspace (last (strip s)))"
proof -
  obtain pre where pre: "pre @ lstrip s = s" and pre_ws: "list_all isspace pre"
    using lstrip_split by blast
  obtain post where post: "rstrip (lstrip s) @ post = lstrip s" and post_ws: "list_all isspace post"
    using rstrip_split by blast
  have ends: "strip s \<noteq> [] \<longrightarrow> \<not> isspace (hd (strip s)) \<and> \<not> isspace (last (strip s))"
  proof
    assume "strip s \<noteq> []"
    then have ne: "rstrip (lstrip s) \<noteq> []" unfolding strip_def .
    have "lstrip s \<noteq> []"
    proof
      assume "lstrip s = []"
      then have "rstrip (lstrip s) = []" by (simp add: rstrip_def)
      with ne show False by contradiction
    qed
    then have "\<not> isspace (hd (lstrip s))" by (rule lstrip_hd)
    moreover from ne have "hd (rstrip (lstrip s)) = hd (lstrip s)" by (rule rstrip_hd)
    moreover from ne have "\<not> isspace (last (rstrip (lstrip s)))" by (rule rstrip_last)
    ultimately show "\<not> isspace (hd (strip s)) \<and> \<not> isspace (last (strip s))"
      unfolding strip_def by simp
  qed
  have "pre @ strip s @ post = pre @ lstrip s"
    unfolding strip_def by (simp only: post)
  also have "\<dots> = s" by (rule pre)
  finally have "s = pre @ strip s @ post" by (rule sym)
  with pre_ws post_ws ends show ?thesis by blast
qed

subsection \<open>Comparing labels\<close>

lemma filter_not_in_empty: "filter (\<lambda>c. c \<notin> A) xs = [] \<longleftrightarrow> set xs \<subseteq> A"
  by (auto simp: filter_empty_conv)

lemma diff_cols_eq:
  "diff_cols expected incoming =
     (filter (\<lambda>c. c \<notin> set incoming) expected, filter (\<lambda>c. c \<notin> set expected) incoming,
      set expected = set incoming \<and> expected \<noteq> incoming)"
  by (simp add: diff_cols_def Let_def)

text \<open>
  Claim C2. For every pair of label sequences, \<open>diff_cols\<close> returns as missing the
  labels of \<open>expected\<close> that are not in \<open>incoming\<close>, in the order of \<open>expected\<close>; as
  extra the labels of \<open>incoming\<close> that are not in \<open>expected\<close>, in the order of
  \<open>incoming\<close>; and it reports an order issue exactly when the two sets of labels are
  equal and the sequences differ, that is, exactly when nothing is missing, nothing is
  extra and the match is not exact. So an order issue is never reported together with a
  missing or an extra label.
\<close>

theorem diff_cols_classifies:
  assumes "diff_cols expected incoming = (missing, extra, reordered)"
  shows "missing = filter (\<lambda>c. c \<notin> set incoming) expected \<and>
         extra = filter (\<lambda>c. c \<notin> set expected) incoming \<and>
         (reordered \<longleftrightarrow> set expected = set incoming \<and> expected \<noteq> incoming) \<and>
         (reordered \<longleftrightarrow> missing = [] \<and> extra = [] \<and> \<not> cols_match expected incoming) \<and>
         \<not> (reordered \<and> (missing \<noteq> [] \<or> extra \<noteq> []))"
proof -
  from assms have m: "missing = filter (\<lambda>c. c \<notin> set incoming) expected"
    and e: "extra = filter (\<lambda>c. c \<notin> set expected) incoming"
    and r: "reordered \<longleftrightarrow> set expected = set incoming \<and> expected \<noteq> incoming"
    by (simp_all add: diff_cols_eq)
  have "set expected = set incoming \<longleftrightarrow> missing = [] \<and> extra = []"
    unfolding m e filter_not_in_empty by blast
  with m e r show ?thesis by (simp add: cols_match_def)
qed

theorem diff_cols_classifies_witness:
  "diff_cols [''id'', ''name''] [''name'', ''id''] = ([], [], True) \<and>
   set [''id'', ''name''] = set [''name'', ''id''] \<and>
   \<not> cols_match [''id'', ''name''] [''name'', ''id''] \<and>
   diff_cols [''id'', ''name''] [''id'', ''name'', ''extra''] = ([], [''extra''], False) \<and>
   set [''id'', ''name''] \<noteq> set [''id'', ''name'', ''extra'']"
proof -
  have h: "diff_cols [''id'', ''name''] [''name'', ''id''] = ([], [], True)"
    by code_simp
  have k: "diff_cols [''id'', ''name''] [''id'', ''name'', ''extra''] = ([], [''extra''], False)"
    by code_simp
  from diff_cols_classifies [OF h]
  have 1: "set [''id'', ''name''] = set [''name'', ''id''] \<and>
      \<not> cols_match [''id'', ''name''] [''name'', ''id'']"
    by blast
  have "[''id'', ''name''] \<noteq> [''id'', ''name'', ''extra'']" by simp
  with diff_cols_classifies [OF k]
  have 2: "set [''id'', ''name''] \<noteq> set [''id'', ''name'', ''extra'']"
    by blast
  from h k 1 2 show ?thesis by blast
qed

text \<open>
  Claim C3. \<open>cols_match\<close> holds exactly when the two sequences have the same length
  and the same label at every position; and a sequence compared with itself matches,
  with nothing missing, nothing extra and no order issue.
\<close>

theorem cols_match_exact:
  "(cols_match expected incoming \<longleftrightarrow>
      length expected = length incoming \<and> (\<forall>k<length expected. expected ! k = incoming ! k)) \<and>
   cols_match expected expected \<and> diff_cols expected expected = ([], [], False)"
proof -
  have "cols_match expected incoming \<longleftrightarrow>
      length expected = length incoming \<and> (\<forall>k<length expected. expected ! k = incoming ! k)"
    unfolding cols_match_def by (rule list_eq_iff_nth_eq)
  moreover have "cols_match expected expected"
    by (simp add: cols_match_def)
  moreover have "diff_cols expected expected = ([], [], False)"
    by (simp add: diff_cols_eq)
  ultimately show ?thesis by blast
qed

theorem cols_match_exact_witness:
  "cols_match [''id'', ''name''] [''id'', ''name''] \<and>
   \<not> cols_match [''id'', ''name''] [''name'', ''id''] \<and>
   diff_cols [''id'', ''name''] [''id'', ''name''] = ([], [], False)"
proof -
  have "\<not> (\<forall>k<length [''id'', ''name'']. [''id'', ''name''] ! k = [''name'', ''id''] ! k)"
    by (simp add: All_less_Suc2 numeral_2_eq_2)
  then show ?thesis
    using cols_match_exact [of "[''id'', ''name'']" "[''id'', ''name'']"]
      cols_match_exact [of "[''id'', ''name'']" "[''name'', ''id'']"]
    by blast
qed

subsection \<open>Normalising labels\<close>

text \<open>
  Claim C8. \<open>normalize_columns\<close> returns as many labels as it is given, in the same
  order: the label at each position is the string form of the input label at that
  position without its leading and trailing whitespace, that is, the string form is that
  label between two runs of whitespace, and that label neither starts nor ends with a
  whitespace character. Nothing is removed: labels that become equal all stay.
\<close>

theorem normalize_columns_spec:
  "length (normalize_columns cols) = length cols \<and>
   (\<forall>i<length cols.
      normalize_columns cols ! i = strip (str (cols ! i)) \<and>
      (\<exists>pre post. str (cols ! i) = pre @ normalize_columns cols ! i @ post \<and>
         list_all isspace pre \<and> list_all isspace post) \<and>
      (normalize_columns cols ! i \<noteq> [] \<longrightarrow>
         \<not> isspace (hd (normalize_columns cols ! i)) \<and>
         \<not> isspace (last (normalize_columns cols ! i))))"
proof (intro conjI allI impI)
  show "length (normalize_columns cols) = length cols"
    by (simp add: normalize_columns_def)
next
  fix i assume i: "i < length cols"
  then have nth: "normalize_columns cols ! i = strip (str (cols ! i))"
    by (simp add: normalize_columns_def)
  show "normalize_columns cols ! i = strip (str (cols ! i))" by (rule nth)
  from strip_spec [of "str (cols ! i)"]
  show "\<exists>pre post. str (cols ! i) = pre @ normalize_columns cols ! i @ post \<and>
         list_all isspace pre \<and> list_all isspace post"
    unfolding nth by blast
  assume "normalize_columns cols ! i \<noteq> []"
  with strip_spec [of "str (cols ! i)"]
  show "\<not> isspace (hd (normalize_columns cols ! i))"
    and "\<not> isspace (last (normalize_columns cols ! i))"
    unfolding nth by blast+
qed

theorem normalize_columns_spec_witness:
  "normalize_columns [SStr ''  a b '', SInt (- 120), SStr ''a b'', SBool False, NaN]
     = [''a b'', ''-120'', ''a b'', ''False'', ''nan''] \<and>
   length (normalize_columns [SStr ''  a b '', SInt (- 120), SStr ''a b'', SBool False, NaN])
     = length [SStr ''  a b '', SInt (- 120), SStr ''a b'', SBool False, NaN] \<and>
   (\<exists>pre post. ''  a b '' = pre @ ''a b'' @ post \<and>
      list_all isspace pre \<and> list_all isspace post)"
proof -
  let ?cols = "[SStr ''  a b '', SInt (- 120), SStr ''a b'', SBool False, NaN]"
  have v: "normalize_columns ?cols = [''a b'', ''-120'', ''a b'', ''False'', ''nan'']"
    by code_simp
  have pos: "0 < length ?cols" by simp
  note t = normalize_columns_spec [of ?cols]
  from t have len: "length (normalize_columns ?cols) = length ?cols"
    by (rule conjunct1)
  from t pos have "\<exists>pre post. str (?cols ! 0) = pre @ normalize_columns ?cols ! 0 @ post \<and>
      list_all isspace pre \<and> list_all isspace post"
    by blast
  then have "\<exists>pre post. ''  a b '' = pre @ ''a b'' @ post \<and>
      list_all isspace pre \<and> list_all isspace post"
    unfolding v by simp
  with v len show ?thesis by blast
qed

subsection \<open>Reset\<close>

lemma upload_seed:
  assumes "expected_cols s = None" and "read_any_table pd f = Inr raw"
  shows "upload pd a n f s =
     (s\<lparr>expected_cols := Some (normalize_columns (columns raw)),
        compiled_df := Some (add_source a n (name f)
           \<lparr>columns = normalize_columns (columns raw), rows = rows raw\<rparr>),
        uploaded_files := uploaded_files s @ [name f]\<rparr>,
      FirstLoaded (length (columns raw))
        (length (rows (add_source a n (name f)
           \<lparr>columns = normalize_columns (columns raw), rows = rows raw\<rparr>))))"
  using assms by (simp add: upload_def Let_def normalize_columns_def)

lemma reset_init: "reset s = init_state"
  by (simp add: reset_def init_state_def)

text \<open>
  Claim C7. From any state, \<open>reset\<close> gives the empty state: no expected columns, no
  compiled table, no uploaded file names. Resetting twice is resetting once. An upload
  after a reset does what the same upload does on the empty state of a new session, and
  when the file is read it locks the expected columns to the normalised labels of the
  file.
\<close>

theorem reset_clears:
  "reset s = init_state \<and>
   expected_cols (reset s) = None \<and> compiled_df (reset s) = None \<and>
   uploaded_files (reset s) = [] \<and>
   reset (reset s) = reset s \<and>
   upload pd a n f (reset s) = upload pd a n f init_state \<and>
   (\<forall>raw. read_any_table pd f = Inr raw \<longrightarrow>
      expected_cols (fst (upload pd a n f (reset s))) = Some (normalize_columns (columns raw)) \<and>
      uploaded_files (fst (upload pd a n f (reset s))) = [name f])"
proof -
  have init: "reset s = init_state" by (rule reset_init)
  have none: "expected_cols init_state = None" by (simp add: init_state_def)
  have "\<forall>raw. read_any_table pd f = Inr raw \<longrightarrow>
      expected_cols (fst (upload pd a n f init_state)) = Some (normalize_columns (columns raw)) \<and>
      uploaded_files (fst (upload pd a n f init_state)) = [name f]"
  proof (intro allI impI)
    fix raw assume "read_any_table pd f = Inr raw"
    from upload_seed [OF none this, of a n]
    show "expected_cols (fst (upload pd a n f init_state)) = Some (normalize_columns (columns raw)) \<and>
      uploaded_files (fst (upload pd a n f init_state)) = [name f]"
      by (simp add: init_state_def)
  qed
  then show ?thesis
    unfolding reset_init by (simp add: init_state_def)
qed

theorem reset_clears_witness:
  "reset seeded1 = init_state \<and>
   expected_cols seeded1 = Some [''id'', ''name''] \<and>
   read_any_table ex_pd (named ''f3.xlsx'') =
     Inr \<lparr>columns = [SStr ''name'', SStr ''id''], rows = [[SStr ''d'', SInt 4]]\<rparr> \<and>
   expected_cols (fst (upload ex_pd True ''source_file'' (named ''f3.xlsx'') (reset seeded1)))
     = Some [''name'', ''id'']"
proof -
  let ?raw = "\<lparr>columns = [SStr ''name'', SStr ''id''], rows = [[SStr ''d'', SInt 4]]\<rparr>"
  have r: "read_any_table ex_pd (named ''f3.xlsx'') = Inr ?raw"
    by code_simp
  have n: "normalize_columns (columns ?raw) = [''name'', ''id'']"
    by code_simp
  have s: "expected_cols seeded1 = Some [''id'', ''name'']"
    by code_simp
  note t = reset_clears [of seeded1 ex_pd True "''source_file''" "named ''f3.xlsx''"]
  from t have a: "reset seeded1 = init_state" by (rule conjunct1)
  from t r have "expected_cols (fst (upload ex_pd True ''source_file'' (named ''f3.xlsx'')
      (reset seeded1))) = Some (normalize_columns (columns ?raw))"
    by blast
  then have b: "expected_cols (fst (upload ex_pd True ''source_file'' (named ''f3.xlsx'')
      (reset seeded1))) = Some [''name'', ''id'']"
    by (simp only: n)
  from a s r b show ?thesis by blast
qed

subsection \<open>Reading an upload\<close>

lemma decode_not_unsupported: "decode r \<noteq> Inl UnsupportedFormat"
  by (cases r) (simp_all add: decode_def)

lemma read_any_table_cases:
  "read_any_table pd f =
     (if ends_nocase (name f) ''.csv'' then decode (read_csv pd f)
      else if ends_nocase (name f) ''.xlsx'' \<or> ends_nocase (name f) ''.xls''
      then decode (read_excel pd f)
      else Inl UnsupportedFormat)"
  unfolding read_any_table_def Let_def
    endswith_lower_iff [OF plain_csv] endswith_lower_iff [OF plain_xlsx]
    endswith_lower_iff [OF plain_xls] ..

lemma csv_not_excel_nocase:
  "ends_nocase nm ''.csv'' \<Longrightarrow> \<not> (ends_nocase nm ''.xlsx'' \<or> ends_nocase nm ''.xls'')"
  using csv_not_excel [of "lower nm"]
  unfolding endswith_lower_iff [OF plain_csv] endswith_lower_iff [OF plain_xlsx]
    endswith_lower_iff [OF plain_xls] .

lemma upload_read_error:
  "read_any_table pd f = Inl e \<Longrightarrow> upload pd a n f s = (s, Failed e)"
  by (simp add: upload_def)

text \<open>
  Claim C6. \<open>read_any_table\<close> dispatches on the end of the file name, letter case
  ignored: a name ending in \<open>.csv\<close> is handed to the CSV decoder and a name ending in
  \<open>.xlsx\<close> or \<open>.xls\<close> to the Excel decoder, and the table that the decoder returns
  is the result; every other name fails with \<open>UnsupportedFormat\<close>, and only such names
  do. On that failure the upload leaves the whole session state as it was.
\<close>

theorem read_any_table_dispatch:
  "(ends_nocase (name f) ''.csv'' \<longrightarrow>
      read_any_table pd f = decode (read_csv pd f) \<and>
      (\<forall>df. read_csv pd f = Inr df \<longrightarrow> read_any_table pd f = Inr df)) \<and>
   (ends_nocase (name f) ''.xlsx'' \<or> ends_nocase (name f) ''.xls'' \<longrightarrow>
      read_any_table pd f = decode (read_excel pd f) \<and>
      (\<forall>df. read_excel pd f = Inr df \<longrightarrow> read_any_table pd f = Inr df)) \<and>
   (read_any_table pd f = Inl UnsupportedFormat \<longleftrightarrow> \<not> supported (name f)) \<and>
   (\<not> supported (name f) \<longrightarrow> upload pd a n f s = (s, Failed UnsupportedFormat))"
proof (intro conjI impI)
  assume csv: "ends_nocase (name f) ''.csv''"
  then show c: "read_any_table pd f = decode (read_csv pd f)"
    by (simp add: read_any_table_cases)
  show "\<forall>df. read_csv pd f = Inr df \<longrightarrow> read_any_table pd f = Inr df"
    unfolding c by (simp add: decode_def)
next
  assume xl: "ends_nocase (name f) ''.xlsx'' \<or> ends_nocase (name f) ''.xls''"
  with csv_not_excel_nocase [of "name f"] have "\<not> ends_nocase (name f) ''.csv''"
    by blast
  with xl show x: "read_any_table pd f = decode (read_excel pd f)"
    by (simp add: read_any_table_cases)
  show "\<forall>df. read_excel pd f = Inr df \<longrightarrow> read_any_table pd f = Inr df"
    unfolding x by (simp add: decode_def)
next
  show iff: "read_any_table pd f = Inl UnsupportedFormat \<longleftrightarrow> \<not> supported (name f)"
    unfolding read_any_table_cases supported_def
    by (simp add: decode_not_unsupported)
  assume "\<not> supported (name f)"
  with iff have "read_any_table pd f = Inl UnsupportedFormat" by simp
  then show "upload pd a n f s = (s, Failed UnsupportedFormat)"
    by (rule upload_read_error)
qed

theorem read_any_table_dispatch_witness:
  "ends_nocase (name (named ''f2.CSV'')) ''.csv'' \<and>
   read_any_table ex_pd (named ''f2.CSV'') =
     Inr \<lparr>columns = [SStr ''id'', SStr ''name''], rows = [[SInt 3, SStr ''c'']]\<rparr> \<and>
   ends_nocase (name (named ''f3.xlsx'')) ''.xlsx'' \<and>
   read_any_table ex_pd (named ''f3.xlsx'') = decode (read_excel ex_pd (named ''f3.xlsx'')) \<and>
   \<not> supported (name (named ''notes.txt'')) \<and>
   upload ex_pd True ''source_file'' (named ''notes.txt'') seeded1 =
     (seeded1, Failed UnsupportedFormat)"
proof -
  have c: "ends_nocase (name (named ''f2.CSV'')) ''.csv''" by code_simp
  have d: "read_csv ex_pd (named ''f2.CSV'') =
     Inr \<lparr>columns = [SStr ''id'', SStr ''name''], rows = [[SInt 3, SStr ''c'']]\<rparr>"
    by code_simp
  have x: "ends_nocase (name (named ''f3.xlsx'')) ''.xlsx''" by code_simp
  have u: "\<not> supported (name (named ''notes.txt''))" by code_simp
  from c d read_any_table_dispatch [of "named ''f2.CSV''" ex_pd]
  have 1: "read_any_table ex_pd (named ''f2.CSV'') =
     Inr \<lparr>columns = [SStr ''id'', SStr ''name''], rows = [[SInt 3, SStr ''c'']]\<rparr>"
    by blast
  from x read_any_table_dispatch [of "named ''f3.xlsx''" ex_pd]
  have 2: "read_any_table ex_pd (named ''f3.xlsx'') = decode (read_excel ex_pd (named ''f3.xlsx''))"
    by blast
  from u read_any_table_dispatch [of "named ''notes.txt''" ex_pd True "''source_file''" seeded1]
  have 3: "upload ex_pd True ''source_file'' (named ''notes.txt'') seeded1 =
     (seeded1, Failed UnsupportedFormat)"
    by blast
  from c 1 x 2 u 3 show ?thesis by blast
qed

subsection \<open>Rejected uploads\<close>

lemma upload_mismatch:
  assumes "expected_cols s = Some expected"
    and "read_any_table pd f = Inr raw"
    and "normalize_columns (columns raw) \<noteq> expected"
  shows "upload pd a n f s =
     (s, ColumnMismatch (filter (\<lambda>c. c \<notin> set (normalize_columns (columns raw))) expected)
           (filter (\<lambda>c. c \<notin> set expected) (normalize_columns (columns raw)))
           (set expected = set (normalize_columns (columns raw)))
           expected (normalize_columns (columns raw)))"
proof -
  from assms(3) have ne: "expected \<noteq> normalize_columns (columns raw)" by (rule not_sym)
  show ?thesis
    using assms(1,2) ne
    by (simp add: upload_def Let_def cols_match_def diff_cols_eq)
qed

lemma funpow_fixed: "g x = x \<Longrightarrow> (g ^^ k) x = x"
  by (induction k) simp_all

lemma upload_mismatch_repeated:
  assumes "expected_cols s = Some expected"
    and "read_any_table pd f = Inr raw"
    and "normalize_columns (columns raw) \<noteq> expected"
  shows "((\<lambda>t. fst (upload pd a n f t)) ^^ k) s = s"
proof (rule funpow_fixed)
  show "fst (upload pd a n f s) = s"
    unfolding upload_mismatch [OF assms] by simp
qed

text \<open>
  Claim C1. In a seeded state, an upload whose table is read and whose normalised
  labels are not exactly the expected columns is answered with the mismatch report of
  \<open>diff_cols\<close>, and the expected columns and the compiled table are what they were
  before; they still are after the same upload has been repeated any number of times.
\<close>

theorem rejected_upload_keeps_table_and_schema:
  assumes "expected_cols s = Some expected"
    and "read_any_table pd f = Inr raw"
    and "normalize_columns (columns raw) \<noteq> expected"
  shows "(\<exists>missing extra order_issue.
            diff_cols expected (normalize_columns (columns raw)) = (missing, extra, order_issue) \<and>
            snd (upload pd a n f s) =
              ColumnMismatch missing extra order_issue expected (normalize_columns (columns raw))) \<and>
         expected_cols (fst (upload pd a n f s)) = expected_cols s \<and>
         compiled_df (fst (upload pd a n f s)) = compiled_df s \<and>
         (\<forall>k. expected_cols (((\<lambda>t. fst (upload pd a n f t)) ^^ k) s) = expected_cols s \<and>
              compiled_df (((\<lambda>t. fst (upload pd a n f t)) ^^ k) s) = compiled_df s)"
proof -
  note u = upload_mismatch [OF assms, of a n]
  have "diff_cols expected (normalize_columns (columns raw)) =
      (filter (\<lambda>c. c \<notin> set (normalize_columns (columns raw))) expected,
       filter (\<lambda>c. c \<notin> set expected) (normalize_columns (columns raw)),
       set expected = set (normalize_columns (columns raw)))"
    using assms(3) by (auto simp: diff_cols_eq)
  moreover have "snd (upload pd a n f s) =
      ColumnMismatch (filter (\<lambda>c. c \<notin> set (normalize_columns (columns raw))) expected)
        (filter (\<lambda>c. c \<notin> set expected) (normalize_columns (columns raw)))
        (set expected = set (normalize_columns (columns raw)))
        expected (normalize_columns (columns raw))"
    unfolding u by simp
  ultimately have report: "\<exists>missing extra order_issue.
      diff_cols expected (normalize_columns (columns raw)) = (missing, extra, order_issue) \<and>
      snd (upload pd a n f s) =
        ColumnMismatch missing extra order_issue expected (normalize_columns (columns raw))"
    by blast
  have once: "fst (upload pd a n f s) = s" unfolding u by simp
  have many: "\<And>k. ((\<lambda>t. fst (upload pd a n f t)) ^^ k) s = s"
    by (rule upload_mismatch_repeated [OF assms])
  from report show ?thesis unfolding once many by simp
qed

theorem rejected_upload_keeps_table_and_schema_witness:
  "expected_cols seeded1 = Some [''id'', ''name''] \<and>
   normalize_columns [SStr ''name'', SStr ''id''] \<noteq> [''id'', ''name''] \<and>
   compiled_df (fst (upload ex_pd True ''source_file'' (named ''f3.xlsx'') seeded1))
     = compiled_df seeded1 \<and>
   expected_cols (((\<lambda>t. fst (upload ex_pd True ''source_file'' (named ''f3.xlsx'') t)) ^^ 3) seeded1)
     = expected_cols seeded1"
proof -
  let ?raw = "\<lparr>columns = [SStr ''name'', SStr ''id''], rows = [[SStr ''d'', SInt 4]]\<rparr>"
  have s: "expected_cols seeded1 = Some [''id'', ''name'']" by code_simp
  have r: "read_any_table ex_pd (named ''f3.xlsx'') = Inr ?raw" by code_simp
  have n: "normalize_columns (columns ?raw) \<noteq> [''id'', ''name'']" by code_simp
  note t = rejected_upload_keeps_table_and_schema [OF s r n, of True "''source_file''"]
  from n have n': "normalize_columns [SStr ''name'', SStr ''id''] \<noteq> [''id'', ''name'']"
    by simp
  from t have 1: "compiled_df (fst (upload ex_pd True ''source_file'' (named ''f3.xlsx'') seeded1))
     = compiled_df seeded1" by blast
  from t have 2: "expected_cols (((\<lambda>t. fst (upload ex_pd True ''source_file'' (named ''f3.xlsx'') t)) ^^ 3) seeded1)
     = expected_cols seeded1" by blast
  from s n' 1 2 show ?thesis by blast
qed

text \<open>
  Claim C10. An upload rejected for a column mismatch also leaves the list of uploaded
  file names as it was, however often it is repeated: a name is recorded only by the
  seeding branch and by the accepted-append branch.
\<close>

theorem rejected_upload_keeps_uploaded_files:
  assumes "expected_cols s = Some expected"
    and "read_any_table pd f = Inr raw"
    and "normalize_columns (columns raw) \<noteq> expected"
  shows "uploaded_files (fst (upload pd a n f s)) = uploaded_files s \<and>
         (\<forall>k. uploaded_files (((\<lambda>t. fst (upload pd a n f t)) ^^ k) s) = uploaded_files s)"
proof -
  have once: "fst (upload pd a n f s) = s"
    unfolding upload_mismatch [OF assms] by simp
  have many: "\<And>k. ((\<lambda>t. fst (upload pd a n f t)) ^^ k) s = s"
    by (rule upload_mismatch_repeated [OF assms])
  show ?thesis unfolding once many by simp
qed

theorem rejected_upload_keeps_uploaded_files_witness:
  "expected_cols seeded1 = Some [''id'', ''name''] \<and>
   uploaded_files seeded1 = [''f1.csv''] \<and>
   uploaded_files (fst (upload ex_pd True ''source_file'' (named ''f4.xls'') seeded1))
     = [''f1.csv'']"
proof -
  let ?raw = "\<lparr>columns = [SStr ''id'', SStr ''name'', SStr ''extra''],
                rows = [[SInt 5, SStr ''e'', SBool True]]\<rparr>"
  have s: "expected_cols seeded1 = Some [''id'', ''name'']" by code_simp
  have r: "read_any_table ex_pd (named ''f4.xls'') = Inr ?raw" by code_simp
  have n: "normalize_columns (columns ?raw) \<noteq> [''id'', ''name'']" by code_simp
  have u: "uploaded_files seeded1 = [''f1.csv'']" by code_simp
  from rejected_upload_keeps_uploaded_files [OF s r n, of True "''source_file''"]
  have "uploaded_files (fst (upload ex_pd True ''source_file'' (named ''f4.xls'') seeded1))
     = uploaded_files seeded1" by blast
  with s u show ?thesis by simp
qed

subsection \<open>Assigning a column\<close>

lemma setitem_absent:
  "key \<notin> set (columns df) \<Longrightarrow>
     setitem df key v = \<lparr>columns = columns df @ [key], rows = map (\<lambda>r. r @ [v]) (rows df)\<rparr>"
  by (simp add: setitem_def)

lemma setitem_present_columns:
  "key \<in> set (columns df) \<Longrightarrow> columns (setitem df key v) = columns df"
  by (simp add: setitem_def)

lemma setitem_length_rows: "length (rows (setitem df key v)) = length (rows df)"
  by (simp add: setitem_def)

lemma wf_df_nth: "wf_df df \<Longrightarrow> j < length (rows df) \<Longrightarrow> length (rows df ! j) = length (columns df)"
  by (simp add: wf_df_def list_all_length)

lemma setitem_present_cell:
  assumes "key \<in> set (columns df)" and "wf_df df"
    and "j < length (rows df)" and "p < length (columns df)"
  shows "rows (setitem df key v) ! j ! p = (if columns df ! p = key then v else rows df ! j ! p)"
proof -
  from assms(2,3) have len: "length (rows df ! j) = length (columns df)" by (rule wf_df_nth)
  from assms(1,3) have "rows (setitem df key v) ! j =
      map (\<lambda>(c, x). if c = key then v else x) (zip (columns df) (rows df ! j))"
    by (simp add: setitem_def)
  with len assms(4) show ?thesis by simp
qed


lemma wf_df_setitem: "wf_df df \<Longrightarrow> wf_df (setitem df key v)"
  by (auto simp: wf_df_def setitem_def list_all_iff)

lemma wf_df_normalized:
  "wf_df raw \<Longrightarrow> wf_df \<lparr>columns = normalize_columns (columns raw), rows = rows raw\<rparr>"
  by (simp add: wf_df_def normalize_columns_def)

lemma wf_df_add_source: "wf_df df \<Longrightarrow> wf_df (add_source a n nm df)"
  by (simp add: add_source_def wf_df_setitem)

subsection \<open>Seeding\<close>

text \<open>
  Claim C4, as the code has it. On the first accepted upload the expected columns are
  locked to the normalised labels of the table, before the source column is dealt with,
  the tagged table becomes the compiled table and the file name is recorded. With the
  option off the table is stored as it is. With the option on, and the configured name
  not among the normalised labels, a last column of that name is appended that holds
  the file name in every row. With the option on and the configured name already among
  the labels, no column is appended: every cell under that label is overwritten with the
  file name and the other cells stay.
\<close>

theorem seed_locks_schema_and_tags:
  assumes "expected_cols s = None"
    and "read_any_table pd f = Inr raw"
    and "wf_df raw"
  shows "\<exists>cdf. upload pd a n f s =
           (s\<lparr>expected_cols := Some (normalize_columns (columns raw)),
              compiled_df := Some cdf,
              uploaded_files := uploaded_files s @ [name f]\<rparr>,
            FirstLoaded (length (columns raw)) (length (rows raw))) \<and>
         (\<not> a \<longrightarrow> cdf = \<lparr>columns = normalize_columns (columns raw), rows = rows raw\<rparr>) \<and>
         (a \<and> n \<notin> set (normalize_columns (columns raw)) \<longrightarrow>
            cdf = \<lparr>columns = normalize_columns (columns raw) @ [n],
                   rows = map (\<lambda>r. r @ [SStr (name f)]) (rows raw)\<rparr>) \<and>
         (a \<and> n \<in> set (normalize_columns (columns raw)) \<longrightarrow>
            columns cdf = normalize_columns (columns raw) \<and>
            length (rows cdf) = length (rows raw) \<and>
            (\<forall>j<length (rows raw). \<forall>p<length (columns raw).
               rows cdf ! j ! p =
                 (if normalize_columns (columns raw) ! p = n then SStr (name f)
                  else rows raw ! j ! p)))"
proof -
  let ?df = "\<lparr>columns = normalize_columns (columns raw), rows = rows raw\<rparr>"
  let ?cdf = "add_source a n (name f) ?df"
  have wf: "wf_df ?df" using assms(3) by (rule wf_df_normalized)
  have len: "length (rows ?cdf) = length (rows raw)"
    by (simp add: add_source_def setitem_length_rows)
  have up: "upload pd a n f s =
           (s\<lparr>expected_cols := Some (normalize_columns (columns raw)),
              compiled_df := Some ?cdf,
              uploaded_files := uploaded_files s @ [name f]\<rparr>,
            FirstLoaded (length (columns raw)) (length (rows raw)))"
    unfolding upload_seed [OF assms(1,2)] len ..
  have off: "\<not> a \<longrightarrow> ?cdf = ?df" by (simp add: add_source_def)
  have fresh: "a \<and> n \<notin> set (normalize_columns (columns raw)) \<longrightarrow>
      ?cdf = \<lparr>columns = normalize_columns (columns raw) @ [n],
               rows = map (\<lambda>r. r @ [SStr (name f)]) (rows raw)\<rparr>"
    by (simp add: add_source_def setitem_absent)
  have clash: "a \<and> n \<in> set (normalize_columns (columns raw)) \<longrightarrow>
      columns ?cdf = normalize_columns (columns raw) \<and>
      length (rows ?cdf) = length (rows raw) \<and>
      (\<forall>j<length (rows raw). \<forall>p<length (columns raw).
         rows ?cdf ! j ! p =
           (if normalize_columns (columns raw) ! p = n then SStr (name f)
            else rows raw ! j ! p))"
  proof (intro impI conjI allI)
    assume h: "a \<and> n \<in> set (normalize_columns (columns raw))"
    then have a: a and mem: "n \<in> set (columns ?df)" by simp_all
    from a have eq: "?cdf = setitem ?df n (SStr (name f))" by (simp add: add_source_def)
    from mem show "columns ?cdf = normalize_columns (columns raw)"
      unfolding eq by (simp add: setitem_present_columns)
    show "length (rows ?cdf) = length (rows raw)" by (rule len)
    fix j p assume j: "j < length (rows raw)" and p: "p < length (columns raw)"
    from j have j': "j < length (rows ?df)" by simp
    from p have p': "p < length (columns ?df)" by (simp add: normalize_columns_def)
    from setitem_present_cell [OF mem wf j' p', of "SStr (name f)"]
    show "rows ?cdf ! j ! p =
           (if normalize_columns (columns raw) ! p = n then SStr (name f)
            else rows raw ! j ! p)"
      unfolding eq by simp
  qed
  from up off fresh clash show ?thesis by blast
qed

theorem seed_locks_schema_and_tags_witness:
  "expected_cols init_state = None \<and>
   upload ex_pd True ''source_file'' (named ''f1.csv'') init_state =
     (\<lparr>expected_cols = Some [''id'', ''name''],
       compiled_df = Some \<lparr>columns = [''id'', ''name'', ''source_file''],
                           rows = [[SInt 1, SStr ''a'', SStr ''f1.csv''],
                                   [SInt 2, SStr ''b'', SStr ''f1.csv'']]\<rparr>,
       uploaded_files = [''f1.csv'']\<rparr>,
      FirstLoaded 2 2) \<and>
   map_option columns
     (compiled_df (fst (upload ex_pd True ''source_file'' (named ''f5.csv'') init_state))) =
     Some [''id'', ''source_file'']"
proof -
  let ?raw = "\<lparr>columns = [SStr ''id'', SStr '' name ''],
                rows = [[SInt 1, SStr ''a''], [SInt 2, SStr ''b'']]\<rparr>"
  have e: "expected_cols init_state = None" by (simp add: init_state_def)
  have r: "read_any_table ex_pd (named ''f1.csv'') = Inr ?raw" by code_simp
  have w: "wf_df ?raw" by (simp add: wf_df_def)
  have n: "normalize_columns (columns ?raw) = [''id'', ''name'']" by code_simp
  have fresh: "True \<and> ''source_file'' \<notin> set (normalize_columns (columns ?raw))"
    unfolding n by simp
  from seed_locks_schema_and_tags [OF e r w, of True "''source_file''"] fresh
  have "upload ex_pd True ''source_file'' (named ''f1.csv'') init_state =
      (init_state\<lparr>expected_cols := Some (normalize_columns (columns ?raw)),
         compiled_df := Some \<lparr>columns = normalize_columns (columns ?raw) @ [''source_file''],
            rows = map (\<lambda>r. r @ [SStr (name (named ''f1.csv''))]) (rows ?raw)\<rparr>,
         uploaded_files := uploaded_files init_state @ [name (named ''f1.csv'')]\<rparr>,
       FirstLoaded (length (columns ?raw)) (length (rows ?raw)))"
    by blast
  then have first: "upload ex_pd True ''source_file'' (named ''f1.csv'') init_state =
     (\<lparr>expected_cols = Some [''id'', ''name''],
       compiled_df = Some \<lparr>columns = [''id'', ''name'', ''source_file''],
                           rows = [[SInt 1, SStr ''a'', SStr ''f1.csv''],
                                   [SInt 2, SStr ''b'', SStr ''f1.csv'']]\<rparr>,
       uploaded_files = [''f1.csv'']\<rparr>,
      FirstLoaded 2 2)"
    unfolding n by (simp add: init_state_def named_def)
  let ?raw5 = "\<lparr>columns = [SStr ''id'', SStr ''source_file''],
                 rows = [[SInt 1, SStr ''orig'']]\<rparr>"
  have r5: "read_any_table ex_pd (named ''f5.csv'') = Inr ?raw5" by code_simp
  have w5: "wf_df ?raw5" by (simp add: wf_df_def)
  have n5: "normalize_columns (columns ?raw5) = [''id'', ''source_file'']" by code_simp
  have clash: "True \<and> ''source_file'' \<in> set (normalize_columns (columns ?raw5))"
    unfolding n5 by simp
  from seed_locks_schema_and_tags [OF e r5 w5, of True "''source_file''"] clash
  obtain cdf where up5: "upload ex_pd True ''source_file'' (named ''f5.csv'') init_state =
      (init_state\<lparr>expected_cols := Some (normalize_columns (columns ?raw5)),
         compiled_df := Some cdf,
         uploaded_files := uploaded_files init_state @ [name (named ''f5.csv'')]\<rparr>,
       FirstLoaded (length (columns ?raw5)) (length (rows ?raw5)))"
    and cols5: "columns cdf = normalize_columns (columns ?raw5)"
    by blast
  have second: "map_option columns
     (compiled_df (fst (upload ex_pd True ''source_file'' (named ''f5.csv'') init_state))) =
     Some [''id'', ''source_file'']"
    unfolding up5 by (simp add: cols5 [unfolded n5])
  from e first second show ?thesis by blast
qed

theorem seed_appends_source_column_counterexample:
  "expected_cols init_state = None \<and>
   read_any_table ex_pd (named ''f5.csv'') =
     Inr \<lparr>columns = [SStr ''id'', SStr ''source_file''], rows = [[SInt 1, SStr ''orig'']]\<rparr> \<and>
   compiled_df (fst (upload ex_pd True ''source_file'' (named ''f5.csv'') init_state)) =
     Some \<lparr>columns = [''id'', ''source_file''], rows = [[SInt 1, SStr ''f5.csv'']]\<rparr> \<and>
   compiled_df (fst (upload ex_pd True ''source_file'' (named ''f5.csv'') init_state)) \<noteq>
     Some \<lparr>columns = [''id'', ''source_file''] @ [''source_file''],
            rows = map (\<lambda>r. r @ [SStr ''f5.csv'']) [[SInt 1, SStr ''orig'']]\<rparr>"
proof -
  have e: "expected_cols init_state = None" by (simp add: init_state_def)
  have r: "read_any_table ex_pd (named ''f5.csv'') =
     Inr \<lparr>columns = [SStr ''id'', SStr ''source_file''], rows = [[SInt 1, SStr ''orig'']]\<rparr>"
    by code_simp
  have c: "compiled_df (fst (upload ex_pd True ''source_file'' (named ''f5.csv'') init_state)) =
     Some \<lparr>columns = [''id'', ''source_file''], rows = [[SInt 1, SStr ''f5.csv'']]\<rparr>"
    by code_simp
  have d: "compiled_df (fst (upload ex_pd True ''source_file'' (named ''f5.csv'') init_state)) \<noteq>
     Some \<lparr>columns = [''id'', ''source_file''] @ [''source_file''],
            rows = map (\<lambda>r. r @ [SStr ''f5.csv'']) [[SInt 1, SStr ''orig'']]\<rparr>"
    unfolding c by simp
  from e r c d show ?thesis by blast
qed

subsection \<open>The tagged table\<close>






lemma add_source_length_rows: "length (rows (add_source a n nm df)) = length (rows df)"
  by (simp add: add_source_def setitem_length_rows)





subsection \<open>Concatenating frames\<close>

lemma unique_distinct: "distinct cols \<Longrightarrow> unique cols = cols"
  by (simp add: unique_def distinct_remdups_id)

lemma distinct_unique: "distinct (unique cols)"
  by (simp add: unique_def)

lemma set_unique: "set (unique cols) = set cols"
  by (simp add: unique_def)

lemma cast_row_length: "length r = length cols \<Longrightarrow> length (cast_row cast cols r) = length cols"
  by (simp add: cast_row_def)


lemma reindex_length: "length (reindex cast cols new_cols r) = length new_cols"
  by (simp add: reindex_def)




lemma conform_length: "conform cast new_cols df = Inr rs \<Longrightarrow> length rs = length (rows df)"
  by (auto simp: conform_def split: if_splits)

lemma conform_ok:
  "columns df = new_cols \<or> distinct (columns df) \<Longrightarrow> \<exists>rs. conform cast new_cols df = Inr rs"
  by (auto simp: conform_def)



lemma union_indexes_distinct:
  assumes "distinct cols1" and "distinct cols2"
  shows "union_indexes cols1 cols2 = cols1 @ filter (\<lambda>c. c \<notin> set cols1) cols2"
proof (cases "cols1 = cols2")
  case True
  then have "filter (\<lambda>c. c \<notin> set cols1) cols2 = []" by simp
  with True show ?thesis by (simp add: union_indexes_def)
next
  case False
  with assms show ?thesis by (simp add: union_indexes_def unique_distinct)
qed

lemma concat_frames_distinct:
  assumes "distinct (columns df1)" and "distinct (columns df2)"
  shows "\<exists>rows1 rows2.
           concat_frames cast df1 df2 =
             Inr \<lparr>columns = columns df1 @ filter (\<lambda>c. c \<notin> set (columns df1)) (columns df2),
                  rows = rows1 @ rows2\<rparr> \<and>
           conform cast (columns df1 @ filter (\<lambda>c. c \<notin> set (columns df1)) (columns df2)) df1
             = Inr rows1 \<and>
           conform cast (columns df1 @ filter (\<lambda>c. c \<notin> set (columns df1)) (columns df2)) df2
             = Inr rows2"
proof -
  let ?new = "columns df1 @ filter (\<lambda>c. c \<notin> set (columns df1)) (columns df2)"
  have new: "union_indexes (columns df1) (columns df2) = ?new"
    using assms by (rule union_indexes_distinct)
  from assms(1) obtain rows1 where 1: "conform cast ?new df1 = Inr rows1"
    using conform_ok by blast
  from assms(2) obtain rows2 where 2: "conform cast ?new df2 = Inr rows2"
    using conform_ok by blast
  from 1 2 have "concat_frames cast df1 df2 = Inr \<lparr>columns = ?new, rows = rows1 @ rows2\<rparr>"
    by (simp add: concat_frames_def new)
  with 1 2 show ?thesis by blast
qed

lemma concat_frames_fails:
  assumes "columns df1 \<noteq> columns df2" and "\<not> distinct (columns df1) \<or> \<not> distinct (columns df2)"
  shows "concat_frames cast df1 df2 = Inl InvalidIndexError"
proof -
  let ?new = "union_indexes (columns df1) (columns df2)"
  from assms(1) have new: "?new = unique (columns df1) @
      filter (\<lambda>c. c \<notin> set (columns df1)) (unique (columns df2))"
    by (simp add: union_indexes_def)
  have d: "distinct ?new"
    unfolding new by (auto simp: distinct_unique set_unique)
  show ?thesis
  proof (cases "distinct (columns df1)")
    case False
    with d have "columns df1 \<noteq> ?new" by auto
    with False show ?thesis by (simp add: concat_frames_def Let_def conform_def)
  next
    case True
    with assms(2) have nd: "\<not> distinct (columns df2)" by simp
    with d have "columns df2 \<noteq> ?new" by auto
    with nd assms(1) show ?thesis
      by (auto simp: concat_frames_def Let_def conform_def split: sum.splits)
  qed
qed

lemma add_source_columns:
  "columns (add_source a n nm df) =
     (if a \<and> n \<notin> set (columns df) then columns df @ [n] else columns df)"
  by (simp add: add_source_def setitem_def)

lemma distinct_add_source:
  "distinct (columns df) \<Longrightarrow> distinct (columns (add_source a n nm df))"
  by (simp add: add_source_columns)

subsection \<open>Accepted uploads\<close>

lemma upload_append:
  assumes "expected_cols s = Some expected"
    and "read_any_table pd f = Inr raw"
    and "normalize_columns (columns raw) = expected"
  shows "upload pd a n f s =
     (case pd_concat pd (compiled_df s)
            (add_source a n (name f) \<lparr>columns = expected, rows = rows raw\<rparr>) of
        Inl e \<Rightarrow> (s, Failed e)
      | Inr df_all \<Rightarrow>
          (s\<lparr>compiled_df := Some df_all, uploaded_files := uploaded_files s @ [name f]\<rparr>,
           Appended (length (rows raw)) (name f)))"
proof -
  from assms have "upload pd a n f s =
     (case pd_concat pd (compiled_df s)
            (add_source a n (name f) \<lparr>columns = expected, rows = rows raw\<rparr>) of
        Inl e \<Rightarrow> (s, Failed e)
      | Inr df_all \<Rightarrow>
          (s\<lparr>compiled_df := Some df_all, uploaded_files := uploaded_files s @ [name f]\<rparr>,
           Appended (length (rows (add_source a n (name f)
              \<lparr>columns = expected, rows = rows raw\<rparr>))) (name f)))"
    by (simp add: upload_def Let_def cols_match_def)
  then show ?thesis by (simp add: add_source_length_rows cong: sum.case_cong)
qed

lemma conform_row_length:
  assumes "conform cast new_cols df = Inr rs" and "wf_df df" and "j < length (rows df)"
  shows "length (rs ! j) = length new_cols"
proof (cases "columns df = new_cols")
  case True
  with assms(1) have "rs = map (cast_row cast (columns df)) (rows df)"
    by (simp add: conform_def)
  with assms(3) have "rs ! j = cast_row cast (columns df) (rows df ! j)" by simp
  moreover from assms(2,3) have "length (rows df ! j) = length (columns df)" by (rule wf_df_nth)
  ultimately show ?thesis using True by (simp add: cast_row_length)
next
  case False
  with assms(1) have "rs = map (reindex cast (columns df) new_cols) (rows df)"
    by (auto simp: conform_def split: if_splits)
  with assms(3) show ?thesis by (simp add: reindex_length)
qed




subsection \<open>Repeated labels\<close>

text \<open>
  With a repeated label in the compiled table and a different source column setting,
  \<open>pd.concat\<close> raises: the upload fails and the state stays as it was.
\<close>

lemma upload_repeated_labels_fails:
  "expected_cols seeded6 = Some [''a'', ''a''] \<and>
   upload ex_pd True ''source_file'' (named ''f6.csv'') seeded6 =
     (seeded6, Failed InvalidIndexError)"
  by code_simp

subsection \<open>What every upload keeps\<close>

lemma conform_wf:
  assumes "conform cast new_cols df = Inr rs" and "wf_df df"
  shows "list_all (\<lambda>r. length r = length new_cols) rs"
  unfolding list_all_length
proof (intro allI impI)
  fix j assume "j < length rs"
  with conform_length [OF assms(1)] have "j < length (rows df)" by simp
  with assms show "length (rs ! j) = length new_cols" by (rule conform_row_length)
qed

lemma concat_frames_wf:
  assumes "concat_frames cast df1 df2 = Inr df" and "wf_df df1" and "wf_df df2"
  shows "wf_df df"
proof -
  let ?new = "union_indexes (columns df1) (columns df2)"
  from assms(1) obtain rows1 rows2
    where 1: "conform cast ?new df1 = Inr rows1" and 2: "conform cast ?new df2 = Inr rows2"
      and df: "df = \<lparr>columns = ?new, rows = rows1 @ rows2\<rparr>"
    by (auto simp: concat_frames_def Let_def split: sum.splits)
  from conform_wf [OF 1 assms(2)] conform_wf [OF 2 assms(3)]
  show ?thesis unfolding df by (simp add: wf_df_def)
qed

lemma concat_frames_keeps_distinct:
  assumes "concat_frames cast df1 df2 = Inr df"
    and "distinct (columns df1)" and "distinct (columns df2)"
  shows "distinct (columns df)"
proof -
  from concat_frames_distinct [OF assms(2,3), of cast] assms(1)
  have "columns df = columns df1 @ filter (\<lambda>c. c \<notin> set (columns df1)) (columns df2)"
    by auto
  with assms(2,3) show ?thesis by auto
qed

lemma upload_cases:
  assumes res: "compiled_df (fst (upload pd a n f s)) = Some cdf'"
  shows "compiled_df s = Some cdf' \<or>
         (\<exists>raw. read_any_table pd f = Inr raw \<and>
            (cdf' = add_source a n (name f)
                      \<lparr>columns = normalize_columns (columns raw), rows = rows raw\<rparr> \<or>
             (\<exists>cast cdf. compiled_df s = Some cdf \<and>
                concat_frames cast cdf
                  (add_source a n (name f)
                     \<lparr>columns = normalize_columns (columns raw), rows = rows raw\<rparr>) = Inr cdf')))"
proof (cases "read_any_table pd f")
  case (Inl e)
  then have "fst (upload pd a n f s) = s" by (simp add: upload_read_error)
  with res show ?thesis by simp
next
  case (Inr raw)
  let ?tagged = "add_source a n (name f)
      \<lparr>columns = normalize_columns (columns raw), rows = rows raw\<rparr>"
  show ?thesis
  proof (cases "expected_cols s")
    case None
    from res have "cdf' = ?tagged" unfolding upload_seed [OF None Inr] by simp
    with Inr show ?thesis by blast
  next
    case (Some expected)
    show ?thesis
    proof (cases "normalize_columns (columns raw) = expected")
      case False
      then have "fst (upload pd a n f s) = s"
        unfolding upload_mismatch [OF Some Inr False] by simp
      with res show ?thesis by simp
    next
      case True
      note up = upload_append [OF Some Inr True, of a n]
      show ?thesis
      proof (cases "pd_concat pd (compiled_df s) ?tagged")
        case (Inl e)
        with up True have "fst (upload pd a n f s) = s" by simp
        with res show ?thesis by simp
      next
        case cat: (Inr df_all)
        with up True res have eq: "cdf' = df_all" by simp
        show ?thesis
        proof (cases "compiled_df s")
          case None
          with cat have "df_all = ?tagged" by (simp add: pd_concat_def)
          with eq Inr show ?thesis by blast
        next
          case (Some cdf)
          with cat have "concat_frames (concat_cast pd cdf ?tagged) cdf ?tagged = Inr df_all"
            by (simp add: pd_concat_def)
          with eq Some Inr show ?thesis by blast
        qed
      qed
    qed
  qed
qed

text \<open>
  When the decoders return well-formed frames, the compiled table stays well-formed;
  when the labels of the uploaded tables do not repeat, the labels of the compiled
  table do not repeat.
\<close>

lemma upload_keeps_wf:
  assumes dec: "\<And>raw. read_any_table pd f = Inr raw \<Longrightarrow> wf_df raw"
    and inv: "\<And>cdf. compiled_df s = Some cdf \<Longrightarrow> wf_df cdf"
    and res: "compiled_df (fst (upload pd a n f s)) = Some cdf'"
  shows "wf_df cdf'"
proof -
  from upload_cases [OF res] consider
      (same) "compiled_df s = Some cdf'"
    | (tagged) raw where "read_any_table pd f = Inr raw"
        "cdf' = add_source a n (name f)
           \<lparr>columns = normalize_columns (columns raw), rows = rows raw\<rparr>"
    | (cat) raw cast cdf where "read_any_table pd f = Inr raw" "compiled_df s = Some cdf"
        "concat_frames cast cdf (add_source a n (name f)
           \<lparr>columns = normalize_columns (columns raw), rows = rows raw\<rparr>) = Inr cdf'"
    by blast
  then show ?thesis
  proof cases
    case same
    then show ?thesis by (rule inv)
  next
    case tagged
    from dec [OF tagged(1)] show ?thesis
      unfolding tagged(2) by (intro wf_df_add_source wf_df_normalized)
  next
    case cat
    from dec [OF cat(1)] have "wf_df (add_source a n (name f)
        \<lparr>columns = normalize_columns (columns raw), rows = rows raw\<rparr>)"
      by (intro wf_df_add_source wf_df_normalized)
    from concat_frames_wf [OF cat(3) inv [OF cat(2)] this] show ?thesis .
  qed
qed

lemma upload_keeps_distinct:
  assumes dec: "\<And>raw. read_any_table pd f = Inr raw \<Longrightarrow>
        distinct (normalize_columns (columns raw))"
    and inv: "\<And>cdf. compiled_df s = Some cdf \<Longrightarrow> distinct (columns cdf)"
    and res: "compiled_df (fst (upload pd a n f s)) = Some cdf'"
  shows "distinct (columns cdf')"
proof -
  from upload_cases [OF res] consider
      (same) "compiled_df s = Some cdf'"
    | (tagged) raw where "read_any_table pd f = Inr raw"
        "cdf' = add_source a n (name f)
           \<lparr>columns = normalize_columns (columns raw), rows = rows raw\<rparr>"
    | (cat) raw cast cdf where "read_any_table pd f = Inr raw" "compiled_df s = Some cdf"
        "concat_frames cast cdf (add_source a n (name f)
           \<lparr>columns = normalize_columns (columns raw), rows = rows raw\<rparr>) = Inr cdf'"
    by blast
  then show ?thesis
  proof cases
    case same
    then show ?thesis by (rule inv)
  next
    case tagged
    from dec [OF tagged(1)] show ?thesis
      unfolding tagged(2) by (simp add: distinct_add_source)
  next
    case cat
    from dec [OF cat(1)] have "distinct (columns (add_source a n (name f)
        \<lparr>columns = normalize_columns (columns raw), rows = rows raw\<rparr>))"
      by (simp add: distinct_add_source)
    from concat_frames_keeps_distinct [OF cat(3) inv [OF cat(2)] this] show ?thesis .
  qed
qed

subsection \<open>Export\<close>

lemma write_cells_length: "write_cells bind cs = Inr out \<Longrightarrow> length out = length cs"
proof (induction cs arbitrary: out)
  case Nil
  then show ?case by simp
next
  case (Cons x cs)
  obtain pos v where x: "x = (pos, v)" by (cases x)
  from Cons.prems obtain c rest where "bind v = Inr c" and rest: "write_cells bind cs = Inr rest"
    and out: "out = (pos, c) # rest"
    unfolding x by (auto split: sum.splits)
  from Cons.IH [OF rest] out show ?case by simp
qed

lemma write_cells_set:
  "write_cells bind cs = Inr out \<Longrightarrow>
     (pos, c) \<in> set out \<longleftrightarrow> (\<exists>v. (pos, v) \<in> set cs \<and> bind v = Inr c)"
proof (induction cs arbitrary: out)
  case Nil
  then show ?case by simp
next
  case (Cons x cs)
  obtain pos' v' where x: "x = (pos', v')" by (cases x)
  from Cons.prems obtain c' rest where b: "bind v' = Inr c'"
    and rest: "write_cells bind cs = Inr rest" and out: "out = (pos', c') # rest"
    unfolding x by (auto split: sum.splits)
  from Cons.IH [OF rest] b show ?case unfolding out x by auto
qed

lemma write_cells_ok:
  "(\<exists>out. write_cells bind cs = Inr out) \<longleftrightarrow> (\<forall>(pos, v)\<in>set cs. \<exists>c. bind v = Inr c)"
proof (induction cs)
  case Nil
  then show ?case by simp
next
  case (Cons x cs)
  obtain pos v where x: "x = (pos, v)" by (cases x)
  show ?case
  proof (cases "bind v")
    case (Inl e)
    then show ?thesis unfolding x by auto
  next
    case (Inr c)
    with Cons.IH show ?thesis unfolding x by (auto split: sum.splits)
  qed
qed

lemma format_value_label: "format_value (SStr l) = SStr l"
  by (simp add: format_value_def)

lemma formatted_cells_set:
  "(pos, v) \<in> set (get_formatted_cells df False) \<longleftrightarrow>
     (\<exists>j<length (columns df). pos = (0, j) \<and> v = SStr (columns df ! j)) \<or>
     (\<exists>i<length (rows df). \<exists>j<length (columns df).
        pos = (Suc i, j) \<and> v = format_value (rows df ! i ! j))"
proof -
  have eq: "set (get_formatted_cells df False) =
      (\<lambda>j. ((0, j), SStr (columns df ! j))) ` {0..<length (columns df)} \<union>
      (\<Union>j\<in>{0..<length (columns df)}.
         (\<lambda>i. ((Suc i, j), format_value (rows df ! i ! j))) ` {0..<length (rows df)})"
    by (simp add: get_formatted_cells_def format_header_def format_body_def
        format_value_label image_Un image_UN image_image)
  show ?thesis unfolding eq by (auto simp: image_iff)
qed

lemma length_concat_const:
  "length (concat (map (\<lambda>j. map (g j) [0..<m]) js)) = length js * m"
  by (induction js) simp_all

lemma formatted_cells_length:
  "length (get_formatted_cells df False) = Suc (length (rows df)) * length (columns df)"
  by (simp add: get_formatted_cells_def format_header_def format_body_def length_concat_const)

lemma to_excel_bytes_cases:
  "to_excel_bytes bind save df =
     (if length (rows df) > 1048576 \<or> length (columns df) > 16384 then Inl SheetTooLarge
      else case write_cells bind (get_formatted_cells df False) of
             Inl e \<Rightarrow> Inl e
           | Inr stored \<Rightarrow> Inr (save [\<lparr>sheet_name = ''compiled'', cells = stored\<rparr>]))"
  by (simp add: to_excel_bytes_def to_excel_def split: sum.splits)

lemma download_file_name_cases:
  "download_file_name filename =
     (if ends_nocase filename ''.xlsx'' then filename else filename @ ''.xlsx'')"
  unfolding download_file_name_def endswith_lower_iff [OF plain_xlsx] ..

text \<open>
  Claim C9, as the code has it. When the table fits a sheet and openpyxl accepts every
  label and every cell, \<open>to_excel_bytes\<close> returns the serialisation of a workbook of
  exactly one sheet, named \<open>compiled\<close>, that holds one cell for each label and each
  cell of the table and nothing else (no index column): row 0 holds the labels in
  column order, and row \<open>i + 1\<close> holds the cells of row \<open>i\<close> of the table in column
  order, each as openpyxl stores it, a missing value as the empty string. In every
  other case it raises and returns nothing. The download name is the name the caller
  typed, with \<open>.xlsx\<close> appended exactly when the name does not already end in
  \<open>.xlsx\<close>, letter case ignored.
\<close>

theorem export_and_download_name:
  "(\<forall>b. to_excel_bytes bind save df = Inr b \<longrightarrow>
      (\<exists>sh. b = save [sh] \<and> sheet_name sh = ''compiled'' \<and>
         length (cells sh) = Suc (length (rows df)) * length (columns df) \<and>
         (\<forall>pos c. (pos, c) \<in> set (cells sh) \<longleftrightarrow>
            (\<exists>j<length (columns df). pos = (0, j) \<and> bind (SStr (columns df ! j)) = Inr c) \<or>
            (\<exists>i<length (rows df). \<exists>j<length (columns df).
               pos = (Suc i, j) \<and> bind (format_value (rows df ! i ! j)) = Inr c)))) \<and>
   ((\<exists>b. to_excel_bytes bind save df = Inr b) \<longleftrightarrow>
      length (rows df) \<le> 1048576 \<and> length (columns df) \<le> 16384 \<and>
      (\<forall>j<length (columns df). \<exists>c. bind (SStr (columns df ! j)) = Inr c) \<and>
      (\<forall>i<length (rows df). \<forall>j<length (columns df).
         \<exists>c. bind (format_value (rows df ! i ! j)) = Inr c)) \<and>
   (ends_nocase filename ''.xlsx'' \<longrightarrow> download_file_name filename = filename) \<and>
   (\<not> ends_nocase filename ''.xlsx'' \<longrightarrow> download_file_name filename = filename @ ''.xlsx'') \<and>
   (download_file_name filename = filename @ ''.xlsx'' \<longleftrightarrow> \<not> ends_nocase filename ''.xlsx'')"
proof -
  let ?cs = "get_formatted_cells df False"
  have layout: "\<forall>b. to_excel_bytes bind save df = Inr b \<longrightarrow>
      (\<exists>sh. b = save [sh] \<and> sheet_name sh = ''compiled'' \<and>
         length (cells sh) = Suc (length (rows df)) * length (columns df) \<and>
         (\<forall>pos c. (pos, c) \<in> set (cells sh) \<longleftrightarrow>
            (\<exists>j<length (columns df). pos = (0, j) \<and> bind (SStr (columns df ! j)) = Inr c) \<or>
            (\<exists>i<length (rows df). \<exists>j<length (columns df).
               pos = (Suc i, j) \<and> bind (format_value (rows df ! i ! j)) = Inr c)))"
  proof (intro allI impI)
    fix b assume ok: "to_excel_bytes bind save df = Inr b"
    then obtain stored where w: "write_cells bind ?cs = Inr stored"
      and b: "b = save [\<lparr>sheet_name = ''compiled'', cells = stored\<rparr>]"
      unfolding to_excel_bytes_cases by (auto split: if_splits sum.splits)
    let ?sh = "\<lparr>sheet_name = ''compiled'', cells = stored\<rparr>"
    have len: "length (cells ?sh) = Suc (length (rows df)) * length (columns df)"
      using write_cells_length [OF w] by (simp add: formatted_cells_length)
    have mem: "\<forall>pos c. (pos, c) \<in> set (cells ?sh) \<longleftrightarrow>
            (\<exists>j<length (columns df). pos = (0, j) \<and> bind (SStr (columns df ! j)) = Inr c) \<or>
            (\<exists>i<length (rows df). \<exists>j<length (columns df).
               pos = (Suc i, j) \<and> bind (format_value (rows df ! i ! j)) = Inr c)"
    proof (intro allI)
      fix pos c
      have "(pos, c) \<in> set stored \<longleftrightarrow> (\<exists>v. (pos, v) \<in> set ?cs \<and> bind v = Inr c)"
        using w by (rule write_cells_set)
      also have "\<dots> \<longleftrightarrow>
            (\<exists>j<length (columns df). pos = (0, j) \<and> bind (SStr (columns df ! j)) = Inr c) \<or>
            (\<exists>i<length (rows df). \<exists>j<length (columns df).
               pos = (Suc i, j) \<and> bind (format_value (rows df ! i ! j)) = Inr c)"
        unfolding formatted_cells_set by blast
      finally show "(pos, c) \<in> set (cells ?sh) \<longleftrightarrow>
            (\<exists>j<length (columns df). pos = (0, j) \<and> bind (SStr (columns df ! j)) = Inr c) \<or>
            (\<exists>i<length (rows df). \<exists>j<length (columns df).
               pos = (Suc i, j) \<and> bind (format_value (rows df ! i ! j)) = Inr c)"
        by simp
    qed
    from b len mem
    show "\<exists>sh. b = save [sh] \<and> sheet_name sh = ''compiled'' \<and>
         length (cells sh) = Suc (length (rows df)) * length (columns df) \<and>
         (\<forall>pos c. (pos, c) \<in> set (cells sh) \<longleftrightarrow>
            (\<exists>j<length (columns df). pos = (0, j) \<and> bind (SStr (columns df ! j)) = Inr c) \<or>
            (\<exists>i<length (rows df). \<exists>j<length (columns df).
               pos = (Suc i, j) \<and> bind (format_value (rows df ! i ! j)) = Inr c))"
      by (intro exI [of _ ?sh]) simp
  qed
  have all_ok: "(\<forall>(pos, v)\<in>set ?cs. \<exists>c. bind v = Inr c) \<longleftrightarrow>
      (\<forall>j<length (columns df). \<exists>c. bind (SStr (columns df ! j)) = Inr c) \<and>
      (\<forall>i<length (rows df). \<forall>j<length (columns df).
         \<exists>c. bind (format_value (rows df ! i ! j)) = Inr c)"
  proof
    assume h: "\<forall>(pos, v)\<in>set ?cs. \<exists>c. bind v = Inr c"
    show "(\<forall>j<length (columns df). \<exists>c. bind (SStr (columns df ! j)) = Inr c) \<and>
      (\<forall>i<length (rows df). \<forall>j<length (columns df).
         \<exists>c. bind (format_value (rows df ! i ! j)) = Inr c)"
    proof (intro conjI allI impI)
      fix j assume "j < length (columns df)"
      then have "((0, j), SStr (columns df ! j)) \<in> set ?cs"
        unfolding formatted_cells_set by blast
      with h show "\<exists>c. bind (SStr (columns df ! j)) = Inr c" by blast
    next
      fix i j assume "i < length (rows df)" and "j < length (columns df)"
      then have "((Suc i, j), format_value (rows df ! i ! j)) \<in> set ?cs"
        unfolding formatted_cells_set by blast
      with h show "\<exists>c. bind (format_value (rows df ! i ! j)) = Inr c" by blast
    qed
  next
    assume h: "(\<forall>j<length (columns df). \<exists>c. bind (SStr (columns df ! j)) = Inr c) \<and>
      (\<forall>i<length (rows df). \<forall>j<length (columns df).
         \<exists>c. bind (format_value (rows df ! i ! j)) = Inr c)"
    show "\<forall>(pos, v)\<in>set ?cs. \<exists>c. bind v = Inr c"
    proof (intro ballI, clarify)
      fix pos v assume "(pos, v) \<in> set ?cs"
      with h show "\<exists>c. bind v = Inr c" unfolding formatted_cells_set by blast
    qed
  qed
  have "(\<exists>b. to_excel_bytes bind save df = Inr b) \<longleftrightarrow>
      length (rows df) \<le> 1048576 \<and> length (columns df) \<le> 16384 \<and>
      (\<exists>out. write_cells bind ?cs = Inr out)"
    unfolding to_excel_bytes_cases by (auto split: sum.splits)
  then have succeeds: "(\<exists>b. to_excel_bytes bind save df = Inr b) \<longleftrightarrow>
      length (rows df) \<le> 1048576 \<and> length (columns df) \<le> 16384 \<and>
      (\<forall>j<length (columns df). \<exists>c. bind (SStr (columns df ! j)) = Inr c) \<and>
      (\<forall>i<length (rows df). \<forall>j<length (columns df).
         \<exists>c. bind (format_value (rows df ! i ! j)) = Inr c)"
    unfolding write_cells_ok all_ok .
  have nm: "download_file_name filename =
      (if ends_nocase filename ''.xlsx'' then filename else filename @ ''.xlsx'')"
    by (rule download_file_name_cases)
  have "filename \<noteq> filename @ ''.xlsx''" by simp
  with nm have names:
    "(ends_nocase filename ''.xlsx'' \<longrightarrow> download_file_name filename = filename) \<and>
     (\<not> ends_nocase filename ''.xlsx'' \<longrightarrow> download_file_name filename = filename @ ''.xlsx'') \<and>
     (download_file_name filename = filename @ ''.xlsx'' \<longleftrightarrow> \<not> ends_nocase filename ''.xlsx'')"
    by auto
  from layout succeeds names show ?thesis by blast
qed

theorem export_and_download_name_witness:
  "to_excel_bytes bind_checked ex_save
     \<lparr>columns = [''id'', ''name''], rows = [[SInt 1, SStr ''a'']]\<rparr> = Inr ''compiled'' \<and>
   to_excel bind_checked \<lparr>columns = [''id'', ''name''], rows = [[SInt 1, SStr ''a'']]\<rparr>
     [] False ''compiled'' =
     Inr [\<lparr>sheet_name = ''compiled'',
           cells = [((0, 0), SStr ''id''), ((0, 1), SStr ''name''),
                    ((1, 0), SInt 1), ((1, 1), SStr ''a'')]\<rparr>] \<and>
   (\<exists>c. bind_checked (SStr ''id'') = Inr c) \<and>
   ends_nocase ''out.XLSX'' ''.xlsx'' \<and> download_file_name ''out.XLSX'' = ''out.XLSX'' \<and>
   \<not> ends_nocase ''out.xls'' ''.xlsx'' \<and> download_file_name ''out.xls'' = ''out.xls.xlsx''"
proof -
  let ?df = "\<lparr>columns = [''id'', ''name''], rows = [[SInt 1, SStr ''a'']]\<rparr>"
  have cs: "get_formatted_cells ?df False =
      [((0, 0), SStr ''id''), ((0, 1), SStr ''name''), ((1, 0), SInt 1), ((1, 1), SStr ''a'')]"
    by (simp add: get_formatted_cells_def format_header_def format_body_def format_value_def)
  have wr: "write_cells bind_checked
      [((0, 0), SStr ''id''), ((0, 1), SStr ''name''), ((1, 0), SInt 1), ((1, 1), SStr ''a'')] =
      Inr [((0, 0), SStr ''id''), ((0, 1), SStr ''name''), ((1, 0), SInt 1), ((1, 1), SStr ''a'')]"
    by (simp add: bind_checked_def check_string_def illegal_char_def)
  have w: "to_excel bind_checked ?df [] False ''compiled'' =
     Inr [\<lparr>sheet_name = ''compiled'',
           cells = [((0, 0), SStr ''id''), ((0, 1), SStr ''name''),
                    ((1, 0), SInt 1), ((1, 1), SStr ''a'')]\<rparr>]"
    unfolding to_excel_def cs wr by simp
  have v: "to_excel_bytes bind_checked ex_save ?df = Inr ''compiled''"
    unfolding to_excel_bytes_def w by (simp add: ex_save_def)
  have a: "ends_nocase ''out.XLSX'' ''.xlsx''" by code_simp
  have b: "\<not> ends_nocase ''out.xls'' ''.xlsx''" by code_simp
  have pos: "0 < length (columns ?df)" by simp
  from v export_and_download_name [of bind_checked ex_save ?df "''out.XLSX''"] pos
  have "\<exists>c. bind_checked (SStr (columns ?df ! 0)) = Inr c" by blast
  then have 0: "\<exists>c. bind_checked (SStr ''id'') = Inr c" by simp
  from a export_and_download_name [of bind_checked ex_save ?df "''out.XLSX''"]
  have 1: "download_file_name ''out.XLSX'' = ''out.XLSX''" by blast
  from b export_and_download_name [of bind_checked ex_save ?df "''out.xls''"]
  have "download_file_name ''out.xls'' = ''out.xls'' @ ''.xlsx''" by blast
  then have 2: "download_file_name ''out.xls'' = ''out.xls.xlsx''" by simp
  from v w 0 a 1 b 2 show ?thesis by blast
qed

theorem export_serializes_every_table_counterexample:
  "to_excel_bytes bind_checked ex_save
     \<lparr>columns = [''id'', ''note''], rows = [[SInt 1, SStr [CHR 0x01]]]\<rparr> =
     Inl IllegalCharacterError \<and>
   to_excel_bytes bind_checked ex_save
     \<lparr>columns = map str_nat [0..<16385], rows = []\<rparr> = Inl SheetTooLarge"
proof -
  let ?df = "\<lparr>columns = [''id'', ''note''], rows = [[SInt 1, SStr [CHR 0x01]]]\<rparr>"
  have cs: "get_formatted_cells ?df False =
      [((0, 0), SStr ''id''), ((0, 1), SStr ''note''),
       ((1, 0), SInt 1), ((1, 1), SStr [CHR 0x01])]"
    by (simp add: get_formatted_cells_def format_header_def format_body_def format_value_def)
  have wr: "write_cells bind_checked
      [((0, 0), SStr ''id''), ((0, 1), SStr ''note''),
       ((1, 0), SInt 1), ((1, 1), SStr [CHR 0x01])] = Inl IllegalCharacterError"
    by (simp add: bind_checked_def check_string_def illegal_char_def)
  have 1: "to_excel_bytes bind_checked ex_save ?df = Inl IllegalCharacterError"
    unfolding to_excel_bytes_def to_excel_def cs wr by simp
  have 2: "to_excel_bytes bind_checked ex_save
     \<lparr>columns = map str_nat [0..<16385], rows = []\<rparr> = Inl SheetTooLarge"
    by (simp add: to_excel_bytes_def to_excel_def)
  from 1 2 show ?thesis by blast
qed

end
